theory Spec2Isabelle
  imports Main "HOL-Library.Word"
begin

section \<open>Data model of the sketch\<close>

text \<open>
  The sketch \<^verbatim>\<open>Blinken.ino\<close> is embedded function by function. Its globals and
  function-local statics are the fields of the record \<open>state\<close>; every function takes
  the state and returns the new one. The two inputs of the board are an
  \<open>environment\<close>: \<open>millis e n\<close> is the value returned by the \<open>n\<close>-th call of
  \<^verbatim>\<open>millis()\<close> and \<open>pinLevel e n\<close> the value returned by the \<open>n\<close>-th call of
  \<^verbatim>\<open>digitalRead(modePin)\<close>; the state counts the calls made so far. Every call of
  \<^verbatim>\<open>my_millis()\<close> of the source is a clock read of the model, also those whose value
  is only printed. The text sent to \<^verbatim>\<open>Serial\<close> is not modelled. The writes to the
  output pins are logged in \<open>pinWrites\<close>, oldest first.

  \<^verbatim>\<open>unsigned long\<close> is a 32-bit word, so \<open>+\<close> wraps and \<open><\<close> compares unsigned.
  Pin levels are the \<^verbatim>\<open>int\<close> values \<^verbatim>\<open>LOW\<close> (0) and \<^verbatim>\<open>HIGH\<close> (1); the code only
  compares them for equality, so they are modelled as \<open>int\<close>.

  The repository holds a second copy of the sketch, which reads the switch on pin 12
  instead of 11 and prints through \<^verbatim>\<open>my_print\<close>; the arguments of \<^verbatim>\<open>my_print\<close>
  still call \<^verbatim>\<open>my_millis()\<close>, so both copies make the same clock reads and the
  model is that of both.

  The three \<^verbatim>\<open>while\<close> loops wait for the switch or for the clock and may run
  forever; each is a partial function into \<open>option\<close>, where \<open>None\<close> means that the
  loop never exits.
\<close>

type_synonym ulong = "32 word"

abbreviation LOW :: int where "LOW \<equiv> 0"
abbreviation HIGH :: int where "HIGH \<equiv> 1"

definition onPeriod :: ulong where "onPeriod = 30000"
definition offPeriod :: ulong where "offPeriod = 20000"
definition debouncePeriod :: ulong where "debouncePeriod = 50"
definition blinkOnPeriod :: ulong where "blinkOnPeriod = 1000"
definition blinkOffPeriod :: ulong where "blinkOffPeriod = 1000"
definition millisOffset :: ulong where "millisOffset = 0"

definition controlPin :: int where "controlPin = 8"
definition groundPin :: int where "groundPin = 7"
definition modePin :: int where "modePin = 11"
definition indicatorPin :: int where "indicatorPin = 13"

datatype Mode = REPEAT | SCHEDULE | RUN
datatype IndicatorState = OFF | BLINKING | ON

text \<open>The inputs of the board, and the globals and statics of the sketch.\<close>

record environment =
  millis :: "nat \<Rightarrow> ulong"
  pinLevel :: "nat \<Rightarrow> int"

text \<open>
  \<open>lastSeenMode\<close> is the static of \<^verbatim>\<open>run_half_cycle\<close>, which C++ initialises when the
  function is first entered: it is \<open>None\<close> until then. \<open>indicatorState\<close>, \<open>blinking\<close>,
  \<open>blinkStart\<close> and \<open>blinkEnd\<close> are the statics of \<^verbatim>\<open>update_indicator\<close>; the two
  without an initialiser start at zero.
\<close>

record state =
  currentMode :: Mode
  currentIndicatorState :: IndicatorState
  currentPowerState :: int
  lastSeenMode :: "Mode option"
  indicatorState :: int
  blinking :: bool
  blinkStart :: ulong
  blinkEnd :: ulong
  clockReads :: nat
  pinReads :: nat
  pinWrites :: "(int \<times> int) list"

definition initial_state :: state where
  "initial_state =
     \<lparr>currentMode = SCHEDULE, currentIndicatorState = BLINKING, currentPowerState = LOW,
      lastSeenMode = None, indicatorState = LOW, blinking = False, blinkStart = 0, blinkEnd = 0,
      clockReads = 0, pinReads = 0, pinWrites = []\<rparr>"

text \<open>The primitives: a clock read, a read of the switch, a write to an output pin.\<close>

definition my_millis :: "environment \<Rightarrow> state \<Rightarrow> ulong \<times> state" where
  "my_millis e s = (millis e (clockReads s) + millisOffset, s\<lparr>clockReads := Suc (clockReads s)\<rparr>)"

definition digitalRead :: "environment \<Rightarrow> int \<Rightarrow> state \<Rightarrow> int \<times> state" where
  "digitalRead e pin s = (pinLevel e (pinReads s), s\<lparr>pinReads := Suc (pinReads s)\<rparr>)"

definition digitalWrite :: "int \<Rightarrow> int \<Rightarrow> state \<Rightarrow> state" where
  "digitalWrite pin val s = s\<lparr>pinWrites := pinWrites s @ [(pin, val)]\<rparr>"

definition next_switch_time :: "ulong \<Rightarrow> ulong \<Rightarrow> ulong" where
  "next_switch_time currTime holdTime = currTime + holdTime"

text \<open>
  \<open>surpassed\<close> is the decision of \<^verbatim>\<open>time_surpassed\<close> once the clock has been read;
  \<open>time_surpassed\<close> reads the clock and decides.
\<close>

definition surpassed :: "ulong \<Rightarrow> ulong \<Rightarrow> ulong \<Rightarrow> bool" where
  "surpassed currTime targetTime originalTime =
     (if targetTime < originalTime \<and> currTime > originalTime then False
      else currTime > targetTime)"

definition time_surpassed :: "environment \<Rightarrow> ulong \<Rightarrow> ulong \<Rightarrow> state \<Rightarrow> bool \<times> state" where
  "time_surpassed e targetTime originalTime s =
     (let (currTime, s1) = my_millis e s
      in (surpassed currTime targetTime originalTime, s1))"

definition request_power_state :: "environment \<Rightarrow> int \<Rightarrow> state \<Rightarrow> bool \<times> state" where
  "request_power_state e requestedState s =
     (let newState = (case currentMode s of
                        REPEAT \<Rightarrow> requestedState
                      | SCHEDULE \<Rightarrow> requestedState
                      | RUN \<Rightarrow> HIGH);
          requestHonored = (case currentMode s of
                              REPEAT \<Rightarrow> True
                            | SCHEDULE \<Rightarrow> True
                            | RUN \<Rightarrow> requestedState = HIGH);
          s1 = (if newState \<noteq> currentPowerState s
                then snd (my_millis e
                       (digitalWrite controlPin newState (s\<lparr>currentPowerState := newState\<rparr>)))
                else s);
          s2 = (if requestHonored then snd (my_millis e s1) else s1)
      in (requestHonored, s2))"

definition update_indicator :: "environment \<Rightarrow> bool \<Rightarrow> state \<Rightarrow> state" where
  "update_indicator e modeChange s =
     (let s1 = (if modeChange then
                  (case currentMode s of
                     REPEAT \<Rightarrow> s\<lparr>indicatorState := LOW, blinking := False\<rparr>
                   | SCHEDULE \<Rightarrow>
                       (let (t, s') = my_millis e (s\<lparr>blinking := True\<rparr>)
                        in s'\<lparr>blinkStart := t, blinkEnd := t + blinkOnPeriod,
                              indicatorState := HIGH\<rparr>)
                   | RUN \<Rightarrow> s\<lparr>indicatorState := HIGH, blinking := False\<rparr>)
                else s);
          (elapsed, s2) = (if blinking s1
                           then time_surpassed e (blinkEnd s1) (blinkStart s1) s1
                           else (False, s1));
          s3 = (if elapsed then
                  (let (t, s') = my_millis e s2
                   in if indicatorState s' = HIGH
                      then s'\<lparr>blinkStart := t, blinkEnd := t + blinkOffPeriod,
                              indicatorState := LOW\<rparr>
                      else s'\<lparr>blinkStart := t, blinkEnd := t + blinkOnPeriod,
                              indicatorState := HIGH\<rparr>)
                else s2);
          changeIndicatorState = (modeChange \<or> elapsed)
      in if changeIndicatorState then digitalWrite indicatorPin (indicatorState s3) s3 else s3)"

definition increment_mode :: "state \<Rightarrow> state" where
  "increment_mode s =
     (case currentMode s of
        REPEAT \<Rightarrow> s\<lparr>currentMode := SCHEDULE\<rparr>
      | SCHEDULE \<Rightarrow> s\<lparr>currentMode := RUN\<rparr>
      | RUN \<Rightarrow> s\<lparr>currentMode := REPEAT\<rparr>)"

definition match_indicator_to_mode :: "environment \<Rightarrow> state \<Rightarrow> state" where
  "match_indicator_to_mode e s =
     (let lastSeenState = currentIndicatorState s;
          s1 = (case currentMode s of
                  REPEAT \<Rightarrow> s\<lparr>currentIndicatorState := OFF\<rparr>
                | SCHEDULE \<Rightarrow> s\<lparr>currentIndicatorState := BLINKING\<rparr>
                | RUN \<Rightarrow> s\<lparr>currentIndicatorState := ON\<rparr>)
      in update_indicator e (lastSeenState \<noteq> currentIndicatorState s1) s1)"

text \<open>
  The two loops of \<^verbatim>\<open>mode_change_check\<close>. The first waits for the switch to go
  HIGH again and returns the last level read, which is \<^verbatim>\<open>lastVal\<close> from then on. The
  second waits out the debounce period; it carries \<^verbatim>\<open>initialTime\<close> and
  \<^verbatim>\<open>fullyDebouncedTime\<close> and returns their final values with the state.
\<close>

partial_function (option) release_while ::
  "environment \<Rightarrow> int \<Rightarrow> state \<Rightarrow> (int \<times> state) option" where
  "release_while e val s =
     (if val = LOW then
        (let (val', s1) = digitalRead e modePin s;
             s2 = update_indicator e False s1
         in release_while e val' s2)
      else Some (val, s))"

declare release_while.simps [code]

partial_function (option) debounce_while ::
  "environment \<Rightarrow> int \<Rightarrow> ulong \<Rightarrow> ulong \<Rightarrow> state \<Rightarrow> (ulong \<times> ulong \<times> state) option" where
  "debounce_while e lastVal initialTime fullyDebouncedTime s =
     (let (elapsed, s1) = time_surpassed e fullyDebouncedTime initialTime s
      in if elapsed then Some (initialTime, fullyDebouncedTime, s1)
         else
           (let (val, s2) = digitalRead e modePin s1;
                (initialTime', fullyDebouncedTime', s3) =
                   (if val \<noteq> lastVal
                    then (let (t, s') = my_millis e s2 in (t, t + debouncePeriod, s'))
                    else (initialTime, fullyDebouncedTime, s2));
                s4 = update_indicator e False s3
            in debounce_while e lastVal initialTime' fullyDebouncedTime' s4))"

declare debounce_while.simps [code]

definition mode_change_check :: "environment \<Rightarrow> state \<Rightarrow> state option" where
  "mode_change_check e s =
     (let (val, s1) = digitalRead e modePin s
      in if val = LOW then
           (let s2 = increment_mode s1;
                s3 = match_indicator_to_mode e s2;
                s4 = snd (my_millis e s3)
            in case release_while e val s4 of
                 None \<Rightarrow> None
               | Some (lastVal, s5) \<Rightarrow>
                   (let s6 = snd (my_millis e s5);
                        (initialTime, s7) = my_millis e s6;
                        fullyDebouncedTime = initialTime + debouncePeriod
                    in case debounce_while e lastVal initialTime fullyDebouncedTime s7 of
                         None \<Rightarrow> None
                       | Some (_, _, s8) \<Rightarrow> Some (snd (my_millis e s8))))
         else Some s1)"

text \<open>
  The loop of \<^verbatim>\<open>run_half_cycle\<close>: the result is \<open>(True, s)\<close> when the time is
  surpassed and \<open>(False, s)\<close> when a poll finds the mode changed.
\<close>

partial_function (option) run_half_cycle_while ::
  "environment \<Rightarrow> ulong \<Rightarrow> ulong \<Rightarrow> state \<Rightarrow> (bool \<times> state) option" where
  "run_half_cycle_while e nextPowerStateChange initialTime s =
     (let (elapsed, s1) = time_surpassed e nextPowerStateChange initialTime s
      in if elapsed then Some (True, s1)
         else
           (let s2 = update_indicator e (lastSeenMode s1 \<noteq> Some (currentMode s1)) s1;
                s3 = s2\<lparr>lastSeenMode := Some (currentMode s2)\<rparr>
            in Option.bind (mode_change_check e s3) (\<lambda>s4.
                 if lastSeenMode s4 \<noteq> Some (currentMode s4)
                 then Some (False, snd (my_millis e (s4\<lparr>lastSeenMode := Some (currentMode s4)\<rparr>)))
                 else run_half_cycle_while e nextPowerStateChange initialTime s4)))"

declare run_half_cycle_while.simps [code]

definition run_half_cycle :: "environment \<Rightarrow> ulong \<Rightarrow> state \<Rightarrow> (bool \<times> state) option" where
  "run_half_cycle e period s =
     (let s0 = (case lastSeenMode s of
                  None \<Rightarrow> s\<lparr>lastSeenMode := Some (currentMode s)\<rparr>
                | Some m \<Rightarrow> s);
          (initialTime, s1) = my_millis e s0;
          nextPowerStateChange = next_switch_time initialTime period
      in run_half_cycle_while e nextPowerStateChange initialTime s1)"

definition loop :: "environment \<Rightarrow> state \<Rightarrow> state option" where
  "loop e s =
     (let (honored, s1) = request_power_state e HIGH s
      in case run_half_cycle e onPeriod s1 of
           None \<Rightarrow> None
         | Some (completed, s2) \<Rightarrow>
             if completed \<and> currentMode s2 \<noteq> RUN then
               (let (honored', s3) = request_power_state e LOW s2
                in map_option snd (run_half_cycle e offPeriod s3))
             else Some s2)"

text \<open>
  \<^verbatim>\<open>setup()\<close>, without the pin modes, the serial port and the delay, which change
  none of the variables; \<open>run_iterations e n\<close> is \<open>n\<close> calls of \<^verbatim>\<open>loop()\<close> in a row,
  as the board makes them.
\<close>

definition setup_sketch :: "environment \<Rightarrow> state \<Rightarrow> state" where
  "setup_sketch e s = update_indicator e True (digitalWrite groundPin LOW s)"

fun run_iterations :: "environment \<Rightarrow> nat \<Rightarrow> state \<Rightarrow> state option" where
  "run_iterations e 0 s = Some s"
| "run_iterations e (Suc n) s =
     (case loop e s of None \<Rightarrow> None | Some s' \<Rightarrow> run_iterations e n s')"

section \<open>Vocabulary of the specification\<close>

text \<open>
  The writes to the mains control pin, the part of the state that the power and the
  mode logic own, the static image of a mode, and what a half cycle guarantees.
\<close>

definition control_writes :: "state \<Rightarrow> (int \<times> int) list" where
  "control_writes s = filter (\<lambda>w. fst w = controlPin) (pinWrites s)"

definition indicator_writes :: "state \<Rightarrow> (int \<times> int) list" where
  "indicator_writes s = filter (\<lambda>w. fst w = indicatorPin) (pinWrites s)"

definition same_control :: "state \<Rightarrow> state \<Rightarrow> bool" where
  "same_control s s' \<longleftrightarrow>
     currentMode s' = currentMode s \<and> currentIndicatorState s' = currentIndicatorState s \<and>
     currentPowerState s' = currentPowerState s \<and> lastSeenMode s' = lastSeenMode s \<and>
     control_writes s' = control_writes s"

definition indicator_of_mode :: "Mode \<Rightarrow> IndicatorState" where
  "indicator_of_mode m = (case m of REPEAT \<Rightarrow> OFF | SCHEDULE \<Rightarrow> BLINKING | RUN \<Rightarrow> ON)"

definition indicator_matches :: "state \<Rightarrow> bool" where
  "indicator_matches s \<longleftrightarrow> currentIndicatorState s = indicator_of_mode (currentMode s)"

definition half_cycle_post :: "state \<Rightarrow> bool \<times> state \<Rightarrow> bool" where
  "half_cycle_post s r \<longleftrightarrow>
     currentPowerState (snd r) = currentPowerState s \<and>
     control_writes (snd r) = control_writes s \<and>
     (indicator_matches s \<longrightarrow> indicator_matches (snd r)) \<and>
     (fst r \<longrightarrow> currentMode (snd r) = currentMode s)"

text \<open>
  The first two statements of the body of the loop of \<^verbatim>\<open>run_half_cycle\<close>, and the
  states at the head of that loop: \<open>poll_reached e tgt t0 h h'\<close> holds when the loop
  entered in state \<open>h\<close> comes back to its head in state \<open>h'\<close> after some polls, none of
  which saw the time surpassed or read the switch pressed. \<open>clock_at e n\<close> is the value
  of the \<open>n\<close>-th call of \<^verbatim>\<open>my_millis()\<close>.
\<close>

definition poll_prepare :: "environment \<Rightarrow> state \<Rightarrow> state" where
  "poll_prepare e s1 =
     (let s2 = update_indicator e (lastSeenMode s1 \<noteq> Some (currentMode s1)) s1
      in s2\<lparr>lastSeenMode := Some (currentMode s2)\<rparr>)"

inductive poll_reached :: "environment \<Rightarrow> ulong \<Rightarrow> ulong \<Rightarrow> state \<Rightarrow> state \<Rightarrow> bool"
  for e :: environment and tgt :: ulong and t0 :: ulong where
  first_poll: "poll_reached e tgt t0 h h"
| next_poll: "poll_reached e tgt t0 h h' \<Longrightarrow> time_surpassed e tgt t0 h' = (False, h1) \<Longrightarrow>
     pinLevel e (pinReads h1) \<noteq> LOW \<Longrightarrow>
     poll_reached e tgt t0 h (snd (digitalRead e modePin (poll_prepare e h1)))"

definition clock_at :: "environment \<Rightarrow> nat \<Rightarrow> ulong" where
  "clock_at e n = millis e n + millisOffset"

section \<open>Concrete runs\<close>

text \<open>
  \<open>readings xs d\<close> returns the elements of \<open>xs\<close> in order and \<open>d\<close> from then on.
\<close>

definition readings :: "'a list \<Rightarrow> 'a \<Rightarrow> nat \<Rightarrow> 'a" where
  "readings xs d n = (if n < length xs then xs ! n else d)"

text \<open>A clock that stands ten ticks before its maximum; the switch is not touched.\<close>

definition wrap_clock_env :: environment where
  "wrap_clock_env = \<lparr>millis = readings [] 4294967286, pinLevel = readings [] HIGH\<rparr>"

text \<open>
  The first on-phase runs one poll and ends at tick 35002; in the first poll of the
  off-phase, at tick 40000, the switch is found pressed, is released at once and the
  debounce period ends at tick 40151.
\<close>

definition off_phase_switch_env :: environment where
  "off_phase_switch_env =
     \<lparr>millis = readings [5000, 5000, 5000, 5000, 5001, 5002, 5002, 35002, 35002, 35002, 35003,
                          40000, 40000, 40000, 40001, 40100, 40100, 40151, 40151, 40151] 40152,
      pinLevel = readings [HIGH, LOW, HIGH] HIGH\<rparr>"

definition run_low_state :: state where
  "run_low_state =
     \<lparr>currentMode = RUN, currentIndicatorState = ON, currentPowerState = LOW,
      lastSeenMode = Some RUN, indicatorState = HIGH, blinking = False,
      blinkStart = 40000, blinkEnd = 41000, clockReads = 20, pinReads = 3,
      pinWrites = [(7, LOW), (13, HIGH), (8, HIGH), (8, LOW), (13, LOW), (13, HIGH)]\<rparr>"

text \<open>
  The switch is found pressed in the second poll of the first on-phase, at tick 5003,
  while the blinking indicator is lit; it is released at once and the debounce period
  ends at tick 5061.
\<close>

definition on_phase_switch_env :: environment where
  "on_phase_switch_env =
     \<lparr>millis = readings [5000, 5000, 5000, 5000, 5001, 5002, 5002, 5003, 5003, 5004, 5010,
                          5010, 5061, 5061, 5061] 5062,
      pinLevel = readings [HIGH, LOW, HIGH] HIGH\<rparr>"

definition lit_run_entry_state :: state where
  "lit_run_entry_state =
     \<lparr>currentMode = RUN, currentIndicatorState = ON, currentPowerState = HIGH,
      lastSeenMode = Some SCHEDULE, indicatorState = HIGH, blinking = True,
      blinkStart = 5000, blinkEnd = 6000, clockReads = 9, pinReads = 2,
      pinWrites = [(7, LOW), (13, HIGH), (8, HIGH)]\<rparr>"

definition run_high_state :: state where
  "run_high_state =
     \<lparr>currentMode = RUN, currentIndicatorState = ON, currentPowerState = HIGH,
      lastSeenMode = Some RUN, indicatorState = HIGH, blinking = False,
      blinkStart = 5000, blinkEnd = 6000, clockReads = 15, pinReads = 3,
      pinWrites = [(7, LOW), (13, HIGH), (8, HIGH), (13, HIGH)]\<rparr>"







section \<open>Mode rotation\<close>

text \<open>
  C7. For every starting mode, three calls of \<open>increment_mode\<close> give back the
  state they started from, so the original mode; one call follows the cycle
  REPEAT to SCHEDULE to RUN to REPEAT.
\<close>

theorem increment_mode_cycle_of_three:
  "increment_mode (increment_mode (increment_mode s)) = s
   \<and> currentMode (increment_mode (s\<lparr>currentMode := REPEAT\<rparr>)) = SCHEDULE
   \<and> currentMode (increment_mode (s\<lparr>currentMode := SCHEDULE\<rparr>)) = RUN
   \<and> currentMode (increment_mode (s\<lparr>currentMode := RUN\<rparr>)) = REPEAT"
  by (cases "currentMode s") (simp_all add: increment_mode_def)

section \<open>Power requests\<close>

text \<open>
  C8. For every requested level and every state, \<open>request_power_state\<close> does the
  same in SCHEDULE mode as in REPEAT mode: the same honored flag, the same
  resulting \<open>currentPowerState\<close>, the same pin writes; the two resulting states
  differ in the mode field only.
\<close>

theorem request_power_state_schedule_as_repeat:
  "fst (request_power_state e r (s\<lparr>currentMode := SCHEDULE\<rparr>))
     = fst (request_power_state e r (s\<lparr>currentMode := REPEAT\<rparr>))
   \<and> currentPowerState (snd (request_power_state e r (s\<lparr>currentMode := SCHEDULE\<rparr>)))
     = currentPowerState (snd (request_power_state e r (s\<lparr>currentMode := REPEAT\<rparr>)))
   \<and> pinWrites (snd (request_power_state e r (s\<lparr>currentMode := SCHEDULE\<rparr>)))
     = pinWrites (snd (request_power_state e r (s\<lparr>currentMode := REPEAT\<rparr>)))
   \<and> snd (request_power_state e r (s\<lparr>currentMode := SCHEDULE\<rparr>))
     = (snd (request_power_state e r (s\<lparr>currentMode := REPEAT\<rparr>)))\<lparr>currentMode := SCHEDULE\<rparr>"
  by (simp add: request_power_state_def my_millis_def digitalWrite_def Let_def)

section \<open>Start of the program\<close>

text \<open>
  C10. The initial values of the globals are SCHEDULE, BLINKING and LOW, with no
  input read and no pin written. \<open>setup_sketch\<close> keeps them, reads no input,
  makes no power request (the control pin is not written), turns blinking on and
  drives the indicator pin: the device starts in the blinking schedule mode, not
  in REPEAT.
\<close>

theorem boot_is_schedule_blinking_low:
  "currentMode initial_state = SCHEDULE
   \<and> currentIndicatorState initial_state = BLINKING
   \<and> currentPowerState initial_state = LOW
   \<and> pinReads initial_state = 0
   \<and> pinWrites initial_state = []
   \<and> currentMode (setup_sketch e initial_state) = SCHEDULE
   \<and> currentIndicatorState (setup_sketch e initial_state) = BLINKING
   \<and> currentPowerState (setup_sketch e initial_state) = LOW
   \<and> blinking (setup_sketch e initial_state)
   \<and> pinReads (setup_sketch e initial_state) = 0
   \<and> pinWrites (setup_sketch e initial_state)
       = [(groundPin, LOW), (indicatorPin, indicatorState (setup_sketch e initial_state))]"
  by (simp add: initial_state_def setup_sketch_def update_indicator_def my_millis_def
      time_surpassed_def digitalWrite_def Let_def split: prod.splits)

section \<open>Overflow-aware time comparison\<close>

lemma unat_target:
  "unat (origin + d :: ulong) =
     (if unat origin + unat d < 4294967296 then unat origin + unat d
      else unat origin + unat d - 4294967296)"
proof -
  have "unat origin < 4294967296" "unat d < 4294967296"
    using unsigned_less [of origin, where ?'a = nat] unsigned_less [of d, where ?'a = nat]
    by simp_all
  then show ?thesis
    by (simp add: unat_word_ariths mod_if)
qed

lemma unat_elapsed:
  "unat (now - origin :: ulong) =
     (if unat origin \<le> unat now then unat now - unat origin
      else unat now + 4294967296 - unat origin)"
  by (simp add: unat_sub_if')

text \<open>
  What the comparison gets right. With \<open>unat (now - origin)\<close> the number of ticks
  since the origin: before the duration is over the answer is False, unless the target
  wrapped and the clock still shows the origin; after it the answer is True, as long as
  the clock has not wrapped while the target has not.
\<close>

lemma surpassed_false_in_window:
  assumes "unat (now - origin) < unat d" and "\<not> (origin + d < origin \<and> now = origin)"
  shows "\<not> surpassed now (origin + d) origin"
proof -
  have bnd: "unat origin < 4294967296" "unat d < 4294967296" "unat now < 4294967296"
    using unsigned_less [of origin, where ?'a = nat] unsigned_less [of d, where ?'a = nat]
      unsigned_less [of now, where ?'a = nat] by simp_all
  have ne: "now = origin \<longleftrightarrow> unat now = unat origin" by (simp add: word_unat_eq_iff)
  show ?thesis
    using assms bnd unfolding surpassed_def word_less_nat_alt unat_target unat_elapsed ne
    by (auto split: if_splits)
qed

lemma surpassed_true_after:
  assumes "unat d < unat (now - origin)" and "origin \<le> now \<or> origin + d < origin"
  shows "surpassed now (origin + d) origin"
proof -
  have bnd: "unat origin < 4294967296" "unat d < 4294967296" "unat now < 4294967296"
    using unsigned_less [of origin, where ?'a = nat] unsigned_less [of d, where ?'a = nat]
      unsigned_less [of now, where ?'a = nat] by simp_all
  show ?thesis
    using assms bnd
    unfolding surpassed_def word_less_nat_alt word_le_nat_alt unat_target unat_elapsed
    by (auto split: if_splits)
qed

lemma surpassed_at_origin_when_target_wraps:
  "origin + d < origin \<Longrightarrow> surpassed origin (origin + d) origin"
  by (simp add: surpassed_def)

text \<open>
  C1. The claim: \<open>time_surpassed (origin + d) origin\<close> is False while the clock is in
  the window from \<open>origin\<close> up to \<open>origin + d\<close>, also when \<open>origin + d\<close> wraps, and
  True once the clock has passed \<open>origin + d\<close>. The code does otherwise at two inputs.
  With the origin ten ticks before the maximum and a duration of twenty ticks the target
  wraps to 10; a clock read that still returns the origin (no tick has gone by) answers
  True, because the guard of the first branch asks for a clock strictly after the origin.
  A half cycle of 30000 ticks entered there completes before its first poll. And with
  the origin 100 ticks before the maximum and a duration of 50 ticks, a clock that has
  wrapped to 10, so 110 ticks after the origin, answers False.
\<close>

theorem time_surpassed_wrong_at_wrap:
  "fst (time_surpassed wrap_clock_env (next_switch_time 4294967286 20) 4294967286 initial_state)
     = True
   \<and> run_half_cycle wrap_clock_env onPeriod initial_state
     = Some (True, initial_state\<lparr>lastSeenMode := Some SCHEDULE, clockReads := 2\<rparr>)
   \<and> surpassed 10 (next_switch_time 4294967196 50) 4294967196 = False"
proof -
  have a: "fst (time_surpassed wrap_clock_env (next_switch_time 4294967286 20) 4294967286
      initial_state) = True"
    by (simp add: time_surpassed_def my_millis_def next_switch_time_def surpassed_def
        readings_def millisOffset_def wrap_clock_env_def initial_state_def)
  have b: "run_half_cycle wrap_clock_env onPeriod initial_state
      = Some (True, initial_state\<lparr>lastSeenMode := Some SCHEDULE, clockReads := 2\<rparr>)"
    by code_simp
  have c: "surpassed 10 (next_switch_time 4294967196 50) 4294967196 = False"
    by (simp add: surpassed_def next_switch_time_def)
  from a b c show ?thesis by simp
qed

section \<open>Power requests in RUN mode\<close>

text \<open>
  C2 as claimed fails: in RUN mode with the power LOW (the state \<open>run_low_state\<close>,
  which the program reaches when the switch is pressed during an off-phase), a LOW
  request is not ignored: it sets \<open>currentPowerState\<close> to HIGH and writes the control
  pin.
\<close>

theorem low_request_in_run_mode_changes_power:
  "currentMode run_low_state = RUN
   \<and> currentPowerState run_low_state = LOW
   \<and> currentPowerState (snd (request_power_state off_phase_switch_env LOW run_low_state)) = HIGH
   \<and> pinWrites (snd (request_power_state off_phase_switch_env LOW run_low_state))
       = pinWrites run_low_state @ [(controlPin, HIGH)]"
  by (simp add: run_low_state_def request_power_state_def my_millis_def digitalWrite_def)

text \<open>
  C2, amended. In RUN mode a LOW request is never honored and always leaves
  \<open>currentPowerState\<close> HIGH: when it is HIGH already the request changes nothing at
  all, and when it is LOW the request forces it HIGH and writes the control pin. A
  HIGH request is honored, and when \<open>currentPowerState\<close> is HIGH already it stays HIGH
  with no pin write.
\<close>

theorem request_power_state_in_run_mode:
  assumes "currentMode s = RUN"
  shows "fst (request_power_state e LOW s) = False
       \<and> currentPowerState (snd (request_power_state e LOW s)) = HIGH
       \<and> (currentPowerState s = HIGH \<longrightarrow> snd (request_power_state e LOW s) = s)
       \<and> (currentPowerState s \<noteq> HIGH \<longrightarrow>
            pinWrites (snd (request_power_state e LOW s)) = pinWrites s @ [(controlPin, HIGH)])
       \<and> fst (request_power_state e HIGH s) = True
       \<and> (currentPowerState s = HIGH \<longrightarrow>
            currentPowerState (snd (request_power_state e HIGH s)) = HIGH
            \<and> pinWrites (snd (request_power_state e HIGH s)) = pinWrites s)"
  using assms by (simp add: request_power_state_def my_millis_def digitalWrite_def Let_def)

theorem request_power_state_in_run_mode_witness:
  "currentMode run_high_state = RUN
   \<and> fst (request_power_state on_phase_switch_env LOW run_high_state) = False
   \<and> snd (request_power_state on_phase_switch_env LOW run_high_state) = run_high_state
   \<and> fst (request_power_state on_phase_switch_env HIGH run_high_state) = True
   \<and> pinWrites (snd (request_power_state on_phase_switch_env HIGH run_high_state))
       = pinWrites run_high_state"
proof -
  have m: "currentMode run_high_state = RUN" by (simp add: run_high_state_def)
  have p: "currentPowerState run_high_state = HIGH" by (simp add: run_high_state_def)
  from request_power_state_in_run_mode [OF m, of on_phase_switch_env] m p
  show ?thesis by simp
qed

section \<open>Writes to the indicator pin\<close>

text \<open>
  C9 as claimed fails: when the mode goes from SCHEDULE to RUN while the blinking
  indicator is lit (the state \<open>lit_run_entry_state\<close>, in which the only level driven
  on the indicator pin so far is HIGH), \<open>update_indicator True\<close> leaves the level HIGH and
  writes the pin all the same.
\<close>

theorem update_indicator_rewrites_same_level:
  "indicatorState lit_run_entry_state = HIGH
   \<and> indicator_writes lit_run_entry_state = [(indicatorPin, HIGH)]
   \<and> indicatorState (update_indicator on_phase_switch_env True lit_run_entry_state) = HIGH
   \<and> pinWrites (update_indicator on_phase_switch_env True lit_run_entry_state)
       = pinWrites lit_run_entry_state @ [(indicatorPin, HIGH)]"
  by (simp add: lit_run_entry_state_def update_indicator_def digitalWrite_def
      indicator_writes_def indicatorPin_def Let_def)

text \<open>
  C9, amended. A call of \<open>update_indicator\<close> with no mode change writes the indicator
  pin exactly when blinking is on and the current blink half-period has elapsed
  (\<open>time_surpassed\<close> of \<open>blinkEnd\<close> and \<open>blinkStart\<close>): it then toggles the level and
  writes the new one; otherwise it writes nothing and the level stays. A call with a
  mode change always writes the pin, whether or not the level is the one already
  driven; the level written is LOW for REPEAT, HIGH for RUN, and for SCHEDULE HIGH, or
  LOW when the first half-period is already over at the next clock read.
\<close>

theorem update_indicator_writes:
  "pinWrites (update_indicator e False s) =
     pinWrites s @ (if blinking s \<and> fst (time_surpassed e (blinkEnd s) (blinkStart s) s)
                    then [(indicatorPin, if indicatorState s = HIGH then LOW else HIGH)] else [])
   \<and> indicatorState (update_indicator e False s) =
       (if blinking s \<and> fst (time_surpassed e (blinkEnd s) (blinkStart s) s)
        then (if indicatorState s = HIGH then LOW else HIGH) else indicatorState s)
   \<and> pinWrites (update_indicator e True s) =
       pinWrites s @ [(indicatorPin, indicatorState (update_indicator e True s))]
   \<and> indicatorState (update_indicator e True s) =
       (case currentMode s of
          REPEAT \<Rightarrow> LOW
        | SCHEDULE \<Rightarrow>
            (if surpassed (clock_at e (Suc (clockReads s)))
                  (clock_at e (clockReads s) + blinkOnPeriod) (clock_at e (clockReads s))
             then LOW else HIGH)
        | RUN \<Rightarrow> HIGH)"
  by (cases "currentMode s")
     (simp_all add: update_indicator_def time_surpassed_def my_millis_def digitalWrite_def
        clock_at_def Let_def split: prod.splits)

section \<open>Reads made by the waiting loops, and their return\<close>





section \<open>What the waiting loops leave alone\<close>

lemma same_control_refl [simp]: "same_control s s"
  by (simp add: same_control_def)

lemma same_control_trans: "same_control s s' \<Longrightarrow> same_control s' s'' \<Longrightarrow> same_control s s''"
  by (simp add: same_control_def)

lemma same_control_my_millis [simp]: "same_control s (snd (my_millis e s))"
  by (simp add: same_control_def my_millis_def control_writes_def)

lemma same_control_digitalRead [simp]: "same_control s (snd (digitalRead e p s))"
  by (simp add: same_control_def digitalRead_def control_writes_def)

lemma same_control_time_surpassed [simp]: "same_control s (snd (time_surpassed e a b s))"
  by (simp add: same_control_def time_surpassed_def my_millis_def control_writes_def)

lemma same_control_update_indicator [simp]: "same_control s (update_indicator e mc s)"
  by (cases "currentMode s")
     (simp_all add: same_control_def update_indicator_def time_surpassed_def my_millis_def
        digitalWrite_def control_writes_def indicatorPin_def controlPin_def Let_def split: prod.splits)

lemma release_while_same_control:
  "release_while e v s = Some r \<Longrightarrow> same_control s (snd r)"
proof (erule release_while.raw_induct [rotated 1, where P = "\<lambda>e v s r. same_control s (snd r)"], goal_cases)
  case (1 rw e v s r)
  show ?case
  proof (cases "v = LOW")
    case True
    obtain v' s1 where rd: "digitalRead e modePin s = (v', s1)" by (cases "digitalRead e modePin s")
    from 1(2) True rd have "rw e v' (update_indicator e False s1) = Some r" by (simp add: Let_def)
    then have "same_control (update_indicator e False s1) (snd r)" using 1(1) by blast
    moreover have "same_control s s1" using same_control_digitalRead [of s e modePin] rd by simp
    ultimately show ?thesis
      using same_control_update_indicator [of s1 e False] by (blast intro: same_control_trans)
  next
    case False
    with 1(2) show ?thesis by auto
  qed
qed

lemma debounce_while_same_control:
  "debounce_while e lastVal t0 t1 s = Some r \<Longrightarrow> same_control s (snd (snd r))"
proof (erule debounce_while.raw_induct
    [rotated 1, where P = "\<lambda>e lastVal t0 t1 s r. same_control s (snd (snd r))"], goal_cases)
  case (1 dw e lastVal t0 t1 s r)
  obtain el s1 where ts: "time_surpassed e t1 t0 s = (el, s1)"
    by (cases "time_surpassed e t1 t0 s")
  have a: "same_control s s1" using same_control_time_surpassed [of s e t1 t0] ts by simp
  show ?case
  proof (cases el)
    case True
    with 1(2) ts a show ?thesis by auto
  next
    case False
    obtain v s2 where rd: "digitalRead e modePin s1 = (v, s2)" by (cases "digitalRead e modePin s1")
    have b: "same_control s1 s2" using same_control_digitalRead [of s1 e modePin] rd by simp
    obtain t s3 where mm: "my_millis e s2 = (t, s3)" by (cases "my_millis e s2")
    have c: "same_control s2 s3" using same_control_my_millis [of s2 e] mm by simp
    show ?thesis
    proof (cases "v \<noteq> lastVal")
      case True
      with 1(2) ts False rd mm
      have "dw e lastVal t (t + debouncePeriod) (update_indicator e False s3) = Some r"
        by (simp add: Let_def)
      then have "same_control (update_indicator e False s3) (snd (snd r))" by (rule 1(1))
      with a b c same_control_update_indicator [of s3 e False] show ?thesis
        by (blast intro: same_control_trans)
    next
      case same: False
      with 1(2) ts False rd
      have "dw e lastVal t0 t1 (update_indicator e False s2) = Some r"
        by (simp add: Let_def)
      then have "same_control (update_indicator e False s2) (snd (snd r))" by (rule 1(1))
      with a b same_control_update_indicator [of s2 e False] show ?thesis
        by (blast intro: same_control_trans)
    qed
  qed
qed

lemma match_indicator_to_mode_effect:
  "currentMode (match_indicator_to_mode e s) = currentMode s \<and>
   currentIndicatorState (match_indicator_to_mode e s) = indicator_of_mode (currentMode s) \<and>
   currentPowerState (match_indicator_to_mode e s) = currentPowerState s \<and>
   lastSeenMode (match_indicator_to_mode e s) = lastSeenMode s \<and>
   control_writes (match_indicator_to_mode e s) = control_writes s"
proof -
  let ?s1 = "case currentMode s of
               REPEAT \<Rightarrow> s\<lparr>currentIndicatorState := OFF\<rparr>
             | SCHEDULE \<Rightarrow> s\<lparr>currentIndicatorState := BLINKING\<rparr>
             | RUN \<Rightarrow> s\<lparr>currentIndicatorState := ON\<rparr>"
  have eq: "match_indicator_to_mode e s
      = update_indicator e (currentIndicatorState s \<noteq> currentIndicatorState ?s1) ?s1"
    by (simp add: match_indicator_to_mode_def Let_def)
  have s1: "currentMode ?s1 = currentMode s \<and>
      currentIndicatorState ?s1 = indicator_of_mode (currentMode s) \<and>
      currentPowerState ?s1 = currentPowerState s \<and> lastSeenMode ?s1 = lastSeenMode s \<and>
      control_writes ?s1 = control_writes s"
    by (cases "currentMode s") (simp_all add: indicator_of_mode_def control_writes_def)
  from same_control_update_indicator
    [of ?s1 e "currentIndicatorState s \<noteq> currentIndicatorState ?s1"] s1
  show ?thesis unfolding eq same_control_def by simp
qed

lemma mode_change_check_effect:
  assumes "mode_change_check e s = Some s'"
  shows "currentPowerState s' = currentPowerState s \<and> lastSeenMode s' = lastSeenMode s \<and>
         control_writes s' = control_writes s \<and>
         (if pinLevel e (pinReads s) = LOW
          then currentMode s' = currentMode (increment_mode s) \<and>
               currentIndicatorState s' = indicator_of_mode (currentMode s')
          else currentMode s' = currentMode s \<and>
               currentIndicatorState s' = currentIndicatorState s)"
proof (cases "pinLevel e (pinReads s) = LOW")
  case False
  with assms have "s' = s\<lparr>pinReads := Suc (pinReads s)\<rparr>"
    by (simp add: mode_change_check_def digitalRead_def)
  with False show ?thesis by (simp add: control_writes_def)
next
  case True
  let ?s1 = "s\<lparr>pinReads := Suc (pinReads s)\<rparr>"
  let ?s3 = "match_indicator_to_mode e (increment_mode ?s1)"
  let ?s4 = "snd (my_millis e ?s3)"
  from assms True obtain lastVal s5 where rel: "release_while e LOW ?s4 = Some (lastVal, s5)"
    by (auto simp: mode_change_check_def digitalRead_def Let_def split: option.splits)
  let ?s6 = "snd (my_millis e s5)"
  let ?t = "fst (my_millis e ?s6)"
  let ?s7 = "snd (my_millis e ?s6)"
  from assms True rel obtain a b s8
    where deb: "debounce_while e lastVal ?t (?t + debouncePeriod) ?s7 = Some (a, b, s8)"
      and res: "s' = snd (my_millis e s8)"
    by (auto simp: mode_change_check_def digitalRead_def Let_def split: option.splits prod.splits)
  have inc: "currentMode (increment_mode ?s1) = currentMode (increment_mode s) \<and>
      currentPowerState (increment_mode ?s1) = currentPowerState s \<and>
      lastSeenMode (increment_mode ?s1) = lastSeenMode s \<and>
      control_writes (increment_mode ?s1) = control_writes s"
    by (cases "currentMode s") (simp_all add: increment_mode_def control_writes_def)
  have c34: "same_control ?s3 ?s4" by simp
  have c45: "same_control ?s4 s5" using release_while_same_control [OF rel] by simp
  have c56: "same_control s5 ?s6" by simp
  have c67: "same_control ?s6 ?s7" by simp
  have c78: "same_control ?s7 s8" using debounce_while_same_control [OF deb] by simp
  have c8: "same_control s8 s'" unfolding res by simp
  have "same_control ?s3 s'"
    using c34 c45 c56 c67 c78 c8 by (blast intro: same_control_trans)
  with match_indicator_to_mode_effect [of e "increment_mode ?s1"] inc True
  show ?thesis by (simp add: same_control_def)
qed

lemma run_half_cycle_while_post:
  "run_half_cycle_while e tgt t0 s = Some r \<Longrightarrow> half_cycle_post s r"
proof (erule run_half_cycle_while.raw_induct
    [rotated 1, where P = "\<lambda>e tgt t0 s r. half_cycle_post s r"], goal_cases)
  case (1 hw e tgt t0 s r)
  obtain el s1 where ts: "time_surpassed e tgt t0 s = (el, s1)"
    by (cases "time_surpassed e tgt t0 s")
  have a: "same_control s s1" using same_control_time_surpassed [of s e tgt t0] ts by simp
  show ?case
  proof (cases el)
    case True
    with 1(2) ts have "r = (True, s1)" by simp
    with a show ?thesis by (simp add: half_cycle_post_def same_control_def indicator_matches_def)
  next
    case False
    let ?s2 = "update_indicator e (lastSeenMode s1 \<noteq> Some (currentMode s1)) s1"
    let ?s3 = "?s2\<lparr>lastSeenMode := Some (currentMode ?s2)\<rparr>"
    have b: "same_control s1 ?s2" by simp
    from 1(2) ts False obtain s4 where mc: "mode_change_check e ?s3 = Some s4"
      and rest: "(if lastSeenMode s4 \<noteq> Some (currentMode s4)
                  then Some (False, snd (my_millis e (s4\<lparr>lastSeenMode := Some (currentMode s4)\<rparr>)))
                  else hw e tgt t0 s4) = Some r"
      by (auto simp: Let_def Option.bind_eq_Some_conv)
    note eff = mode_change_check_effect [OF mc]
    have s3: "currentMode ?s3 = currentMode s \<and> currentPowerState ?s3 = currentPowerState s \<and>
        control_writes ?s3 = control_writes s \<and>
        currentIndicatorState ?s3 = currentIndicatorState s \<and>
        lastSeenMode ?s3 = Some (currentMode s)"
      using a b by (simp add: same_control_def control_writes_def)
    have m4: "indicator_matches s \<longrightarrow> indicator_matches s4"
      using eff s3 by (auto simp: indicator_matches_def split: if_splits)
    have p4: "currentPowerState s4 = currentPowerState s \<and> control_writes s4 = control_writes s"
      using eff s3 by simp
    show ?thesis
    proof (cases "lastSeenMode s4 \<noteq> Some (currentMode s4)")
      case True
      with rest have "r = (False, snd (my_millis e (s4\<lparr>lastSeenMode := Some (currentMode s4)\<rparr>)))"
        by simp
      with m4 p4 show ?thesis
        by (simp add: half_cycle_post_def my_millis_def indicator_matches_def control_writes_def)
    next
      case cont: False
      with rest have "hw e tgt t0 s4 = Some r" by simp
      then have ih: "half_cycle_post s4 r" by (rule 1(1))
      from cont eff s3 have "currentMode s4 = currentMode s" by simp
      with ih m4 p4 show ?thesis by (simp add: half_cycle_post_def)
    qed
  qed
qed

lemma run_half_cycle_post:
  assumes "run_half_cycle e period s = Some r"
  shows "half_cycle_post s r"
proof -
  let ?s0 = "case lastSeenMode s of None \<Rightarrow> s\<lparr>lastSeenMode := Some (currentMode s)\<rparr> | Some m \<Rightarrow> s"
  from assms have "run_half_cycle_while e (next_switch_time (fst (my_millis e ?s0)) period)
      (fst (my_millis e ?s0)) (snd (my_millis e ?s0)) = Some r"
    by (simp add: run_half_cycle_def Let_def split: prod.splits)
  from run_half_cycle_while_post [OF this]
  have "half_cycle_post (snd (my_millis e ?s0)) r" .
  moreover have "currentMode (snd (my_millis e ?s0)) = currentMode s \<and>
      currentPowerState (snd (my_millis e ?s0)) = currentPowerState s \<and>
      control_writes (snd (my_millis e ?s0)) = control_writes s \<and>
      currentIndicatorState (snd (my_millis e ?s0)) = currentIndicatorState s"
    by (cases "lastSeenMode s") (simp_all add: my_millis_def control_writes_def)
  ultimately show ?thesis by (simp add: half_cycle_post_def indicator_matches_def)
qed

lemma request_power_state_effect:
  "currentMode (snd (request_power_state e r s)) = currentMode s \<and>
   currentIndicatorState (snd (request_power_state e r s)) = currentIndicatorState s \<and>
   (currentMode s = RUN \<longrightarrow> currentPowerState (snd (request_power_state e r s)) = HIGH) \<and>
   (currentMode s \<noteq> RUN \<longrightarrow> currentPowerState (snd (request_power_state e r s)) = r)"
  by (cases "currentMode s")
     (simp_all add: request_power_state_def my_millis_def digitalWrite_def Let_def)

lemma loop_cases:
  assumes "loop e s = Some s'"
  obtains (interrupted) b where
      "run_half_cycle e onPeriod (snd (request_power_state e HIGH s)) = Some (b, s')"
      "\<not> b \<or> currentMode s' = RUN"
  | (full) s2 b where
      "run_half_cycle e onPeriod (snd (request_power_state e HIGH s)) = Some (True, s2)"
      "currentMode s2 \<noteq> RUN"
      "run_half_cycle e offPeriod (snd (request_power_state e LOW s2)) = Some (b, s')"
  using assms
  by (auto simp: loop_def Let_def split: prod.splits option.splits if_splits)










section \<open>Return of the mode check\<close>





section \<open>A mode change during the on-phase\<close>




section \<open>Power state in RUN mode\<close>

text \<open>
  C4 as claimed fails: when the switch is pressed during the first off-phase, the first
  iteration of \<open>loop\<close> after \<open>setup_sketch\<close> ends in RUN mode with the power LOW. The
  power has been LOW in RUN mode since \<open>increment_mode\<close> ran, through the wait for the
  release and the debounce period.
\<close>

theorem run_mode_with_power_low_is_reached:
  "run_iterations off_phase_switch_env 1 (setup_sketch off_phase_switch_env initial_state)
     = Some run_low_state
   \<and> currentMode run_low_state = RUN
   \<and> currentPowerState run_low_state = LOW"
proof -
  have "run_iterations off_phase_switch_env 1 (setup_sketch off_phase_switch_env initial_state)
      = Some run_low_state"
    by code_simp
  then show ?thesis by (simp add: run_low_state_def)
qed

text \<open>
  C4, amended. When an iteration of \<open>loop\<close> ends in RUN mode, \<open>currentPowerState\<close> is
  HIGH unless the mode changed during the off-phase of that iteration; in that case it
  is still LOW, as the off-phase left it. Every power request made in RUN mode, so the
  one at the top of the next iteration, leaves \<open>currentPowerState\<close> HIGH.
\<close>

theorem run_mode_power_after_loop:
  assumes "loop e s = Some s'" and "currentMode s' = RUN"
  shows "(currentPowerState s' = HIGH
          \<or> (\<exists>s2. run_half_cycle e onPeriod (snd (request_power_state e HIGH s)) = Some (True, s2)
                 \<and> currentMode s2 \<noteq> RUN
                 \<and> run_half_cycle e offPeriod (snd (request_power_state e LOW s2)) = Some (False, s')
                 \<and> currentPowerState s' = LOW))
       \<and> currentPowerState (snd (request_power_state e r s')) = HIGH"
proof -
  have nxt: "currentPowerState (snd (request_power_state e r s')) = HIGH"
    using request_power_state_effect [of e r s'] assms(2) by simp
  from assms(1) show ?thesis
  proof (cases rule: loop_cases)
    case (interrupted b)
    have "currentPowerState (snd (request_power_state e HIGH s)) = HIGH"
      using request_power_state_effect [of e HIGH s] by (cases "currentMode s = RUN") simp_all
    with run_half_cycle_post [OF interrupted(1)] have "currentPowerState s' = HIGH"
      by (simp add: half_cycle_post_def)
    with nxt show ?thesis by simp
  next
    case (full s2 b)
    let ?s3 = "snd (request_power_state e LOW s2)"
    from request_power_state_effect [of e LOW s2] full(2)
    have s3: "currentMode ?s3 = currentMode s2" "currentPowerState ?s3 = LOW" by simp_all
    from run_half_cycle_post [OF full(3)]
    have post: "currentPowerState s' = currentPowerState ?s3"
      "b \<longrightarrow> currentMode s' = currentMode ?s3"
      by (simp_all add: half_cycle_post_def)
    from post(2) s3(1) full(2) assms(2) have "\<not> b" by auto
    with full post(1) s3(2) nxt show ?thesis by auto
  qed
qed

theorem run_mode_power_after_loop_witness:
  "loop off_phase_switch_env (setup_sketch off_phase_switch_env initial_state) = Some run_low_state
   \<and> currentMode run_low_state = RUN
   \<and> currentPowerState run_low_state = LOW
   \<and> currentPowerState (snd (request_power_state off_phase_switch_env HIGH run_low_state)) = HIGH"
proof -
  have a: "loop off_phase_switch_env (setup_sketch off_phase_switch_env initial_state)
      = Some run_low_state"
    by code_simp
  have b: "currentMode run_low_state = RUN" by (simp add: run_low_state_def)
  have c: "currentPowerState run_low_state = LOW" by (simp add: run_low_state_def)
  from run_mode_power_after_loop [OF a b, of HIGH] a b c show ?thesis by simp
qed

section \<open>The debounce guard\<close>


section \<open>Indicator state and mode\<close>




end
